theory Spec2Isabelle
  imports Complex_Main
begin

section \<open>Three-component vectors\<close>

text \<open>
  The solver in \<^verbatim>\<open>thomson.py\<close> imports its vectors from the module
  \<^verbatim>\<open>vector3\<close>, which is not part of the sources at hand. The
  operations the solver calls (\<^verbatim>\<open>+\<close>, \<^verbatim>\<open>-\<close>, \<^verbatim>\<open>*\<close> by a scalar,
  \<^verbatim>\<open>dot\<close>, \<^verbatim>\<open>mag\<close>, \<^verbatim>\<open>normalized\<close>) are therefore
  modelled from the specification's description of the vector collaborator.
  Python floats are idealised as real numbers throughout, vectors are
  immutable values, and a Python exception is a value \<open>Inl\<close> of the
  result type.
\<close>

datatype error = ZeroDivisionError

datatype vec3 = vec3 (x: real) (y: real) (z: real)

instantiation vec3 :: ab_group_add
begin

definition zero_vec3 :: vec3 where
  "zero_vec3 = vec3 0 0 0"

definition plus_vec3 :: "vec3 \<Rightarrow> vec3 \<Rightarrow> vec3" where
  "plus_vec3 a b = vec3 (x a + x b) (y a + y b) (z a + z b)"

definition minus_vec3 :: "vec3 \<Rightarrow> vec3 \<Rightarrow> vec3" where
  "minus_vec3 a b = vec3 (x a - x b) (y a - y b) (z a - z b)"

definition uminus_vec3 :: "vec3 \<Rightarrow> vec3" where
  "uminus_vec3 a = vec3 (- x a) (- y a) (- z a)"

instance
  by standard
    (simp_all add: zero_vec3_def plus_vec3_def minus_vec3_def uminus_vec3_def)

end

text \<open>Modelled from the spec: \<^verbatim>\<open>vec3.__mul__\<close> with a scalar (scalar multiplication).\<close>

definition scale :: "vec3 \<Rightarrow> real \<Rightarrow> vec3" where
  "scale a k = vec3 (x a * k) (y a * k) (z a * k)"

text \<open>Modelled from the spec: \<^verbatim>\<open>vec3.dot\<close> (dot product).\<close>

definition dot :: "vec3 \<Rightarrow> vec3 \<Rightarrow> real" where
  "dot a b = x a * x b + y a * y b + z a * z b"

text \<open>Modelled from the spec: \<^verbatim>\<open>vec3.mag\<close> (Euclidean magnitude).\<close>

definition mag :: "vec3 \<Rightarrow> real" where
  "mag a = sqrt (x a * x a + y a * y a + z a * z a)"

text \<open>
  Modelled from the spec: \<^verbatim>\<open>vec3.normalized\<close>. The specification leaves the
  normalisation of the zero vector undefined; dividing by a zero magnitude raises
  \<^verbatim>\<open>ZeroDivisionError\<close> in Python, which is what the model returns.
  \<open>direction a\<close> is the vector of the three quotients, the result of
  \<open>normalized a\<close> whenever there is one.
\<close>

definition direction :: "vec3 \<Rightarrow> vec3" where
  "direction a = vec3 (x a / mag a) (y a / mag a) (z a / mag a)"

definition normalized :: "vec3 \<Rightarrow> error + vec3" where
  "normalized a = (if mag a = 0 then Inl ZeroDivisionError else Inr (direction a))"

section \<open>The point charge\<close>

record electron =
  pos :: vec3
  vel :: vec3

text \<open>\<^verbatim>\<open>electron.__init__\<close>: the given position, zero velocity.\<close>

definition new_electron :: "vec3 \<Rightarrow> electron" where
  "new_electron p = \<lparr>pos = p, vel = vec3 0 0 0\<rparr>"

text \<open>
  \<^verbatim>\<open>electron.calc_accel\<close>: the direction is computed first, then the
  magnitude, whose division by the squared distance is not guarded and raises
  on a zero denominator.
\<close>

definition calc_accel :: "electron \<Rightarrow> electron \<Rightarrow> error + vec3" where
  "calc_accel self other_electron =
     (case normalized (pos self - pos other_electron) of
        Inl err \<Rightarrow> Inl err
      | Inr accel_dir \<Rightarrow>
          if (mag (pos self - pos other_electron))\<^sup>2 = 0 then Inl ZeroDivisionError
          else Inr (scale accel_dir (1 / (mag (pos self - pos other_electron))\<^sup>2)))"

definition update_vel :: "electron \<Rightarrow> vec3 \<Rightarrow> electron" where
  "update_vel self accel = self\<lparr>vel := vel self + accel\<rparr>"

definition update_pos :: "electron \<Rightarrow> electron" where
  "update_pos self = self\<lparr>pos := pos self + vel self\<rparr>"

section \<open>Initialisation\<close>

text \<open>
  The random sampler is external: \<open>rnd k\<close> is the value of the \<open>k\<close>-th call of
  \<^verbatim>\<open>random.uniform(-1, 1)\<close>. The \<open>i\<close>-th electron consumes the draws
  \<open>3 * i\<close>, \<open>3 * i + 1\<close> and \<open>3 * i + 2\<close> for its raw vector
  \<open>sample rnd i\<close>, which is then normalised. The loop runs over
  \<^verbatim>\<open>range(n)\<close>, which is empty for \<open>n \<le> 0\<close>.
\<close>

definition sample :: "(nat \<Rightarrow> real) \<Rightarrow> nat \<Rightarrow> vec3" where
  "sample rnd i = vec3 (rnd (3 * i)) (rnd (3 * i + 1)) (rnd (3 * i + 2))"

fun init_loop :: "(nat \<Rightarrow> real) \<Rightarrow> nat list \<Rightarrow> electron list \<Rightarrow> error + electron list" where
  "init_loop rnd [] electrons = Inr electrons"
| "init_loop rnd (i # rest) electrons =
     (case normalized (sample rnd i) of
        Inl err \<Rightarrow> Inl err
      | Inr new_pos \<Rightarrow> init_loop rnd rest (electrons @ [new_electron new_pos]))"

definition init_electrons :: "int \<Rightarrow> (nat \<Rightarrow> real) \<Rightarrow> error + electron list" where
  "init_electrons n rnd = init_loop rnd [0..<nat n] []"

section \<open>One iteration of the relaxation loop\<close>

subsection \<open>Accelerations (source lines 56 to 69)\<close>

text \<open>
  The class \<^verbatim>\<open>electron\<close> defines no \<^verbatim>\<open>__eq__\<close>, so
  \<^verbatim>\<open>e == e2\<close> compares object identity; an electron's identity is its index in
  the list \<^verbatim>\<open>electrons\<close>. In \<open>accel_inner\<close>, \<open>i\<close> is the index of
  \<open>e\<close> and \<open>j\<close> the index of the first electron of the remaining list.
\<close>

fun accel_inner :: "electron \<Rightarrow> nat \<Rightarrow> nat \<Rightarrow> electron list \<Rightarrow> vec3 \<Rightarrow> error + vec3" where
  "accel_inner e i j [] total_electron_accel = Inr total_electron_accel"
| "accel_inner e i j (e2 # rest) total_electron_accel =
     (if i \<noteq> j then
        (case calc_accel e e2 of
           Inl err \<Rightarrow> Inl err
         | Inr a \<Rightarrow> accel_inner e i (Suc j) rest (total_electron_accel + a))
      else accel_inner e i (Suc j) rest total_electron_accel)"

fun accel_outer :: "electron list \<Rightarrow> nat \<Rightarrow> electron list \<Rightarrow> vec3 list \<Rightarrow> error + vec3 list" where
  "accel_outer electrons i [] current_electron_accels = Inr current_electron_accels"
| "accel_outer electrons i (e # rest) current_electron_accels =
     (case accel_inner e i 0 electrons (vec3 0 0 0) of
        Inl err \<Rightarrow> Inl err
      | Inr total_electron_accel \<Rightarrow>
          accel_outer electrons (Suc i) rest (current_electron_accels @ [total_electron_accel]))"

definition calc_accels :: "electron list \<Rightarrow> error + vec3 list" where
  "calc_accels electrons = accel_outer electrons 0 electrons []"

subsection \<open>Velocities (source lines 72 to 80)\<close>

text \<open>
  The loop runs over the indices and mutates the electron at each index in
  place: the list is threaded through and updated at \<open>idx_e\<close>.
\<close>

definition vel_body :: "real \<Rightarrow> vec3 \<Rightarrow> electron \<Rightarrow> error + electron" where
  "vel_body relaxation_factor accel e0 =
     (let e = update_vel e0 (scale (accel - scale accel (9 / 10)) relaxation_factor)
      in case normalized (pos e) of
           Inl err \<Rightarrow> Inl err
         | Inr pn \<Rightarrow>
             let radial_vel = dot (vel e) pn
             in (case normalized (pos e) of
                   Inl err \<Rightarrow> Inl err
                 | Inr pn2 \<Rightarrow> Inr (e\<lparr>vel := vel e - scale pn2 radial_vel\<rparr>)))"

fun vel_loop :: "real \<Rightarrow> vec3 list \<Rightarrow> nat list \<Rightarrow> electron list \<Rightarrow> error + electron list" where
  "vel_loop relaxation_factor accels [] electrons = Inr electrons"
| "vel_loop relaxation_factor accels (idx_e # rest) electrons =
     (case vel_body relaxation_factor (accels ! idx_e) (electrons ! idx_e) of
        Inl err \<Rightarrow> Inl err
      | Inr e \<Rightarrow> vel_loop relaxation_factor accels rest (electrons[idx_e := e]))"

subsection \<open>Positions (source lines 83 to 89)\<close>

record pos_state =
  ps_electrons :: "electron list"
  ps_old_positions :: "vec3 list"
  ps_new_positions :: "vec3 list"

text \<open>The body of the loop for one electron: move, then project back onto the sphere.\<close>

definition pos_body :: "electron \<Rightarrow> error + electron" where
  "pos_body e0 =
     (let e = update_pos e0
      in case normalized (pos e) of
           Inl err \<Rightarrow> Inl err
         | Inr p \<Rightarrow> Inr (e\<lparr>pos := p\<rparr>))"

fun pos_loop :: "nat list \<Rightarrow> pos_state \<Rightarrow> error + pos_state" where
  "pos_loop [] s = Inr s"
| "pos_loop (i # rest) s =
     (let e = ps_electrons s ! i;
          old_positions = ps_old_positions s @ [pos e]
      in case pos_body e of
           Inl err \<Rightarrow> Inl err
         | Inr e1 \<Rightarrow>
             pos_loop rest
               \<lparr>ps_electrons = (ps_electrons s)[i := e1],
                ps_old_positions = old_positions,
                ps_new_positions = ps_new_positions s @ [pos e1]\<rparr>)"

subsection \<open>Displacements (source lines 92 to 97) and the whole iteration\<close>

definition convergence_of :: "vec3 list \<Rightarrow> vec3 list \<Rightarrow> real list" where
  "convergence_of old_positions new_positions =
     map (\<lambda>idx_pos. mag (new_positions ! idx_pos - old_positions ! idx_pos))
       [0..<length old_positions]"

record iteration_result =
  electrons :: "electron list"
  old_positions :: "vec3 list"
  new_positions :: "vec3 list"
  convergence_list :: "real list"

definition iteration :: "real \<Rightarrow> electron list \<Rightarrow> error + iteration_result" where
  "iteration relaxation_factor es =
     (case calc_accels es of
        Inl err \<Rightarrow> Inl err
      | Inr current_electron_accels \<Rightarrow>
          (case vel_loop relaxation_factor current_electron_accels [0..<length es] es of
             Inl err \<Rightarrow> Inl err
           | Inr es1 \<Rightarrow>
               (case pos_loop [0..<length es1]
                       \<lparr>ps_electrons = es1, ps_old_positions = [], ps_new_positions = []\<rparr> of
                  Inl err \<Rightarrow> Inl err
                | Inr s \<Rightarrow>
                    Inr \<lparr>electrons = ps_electrons s,
                         old_positions = ps_old_positions s,
                         new_positions = ps_new_positions s,
                         convergence_list =
                           convergence_of (ps_old_positions s) (ps_new_positions s)\<rparr>)))"

section \<open>The relaxation loop and the solver\<close>

text \<open>
  The \<^verbatim>\<open>while not converged\<close> loop has no iteration cap, so it is a partial
  function: \<open>None\<close> is a run that never leaves the loop, \<open>Some (Inl err)\<close> a run
  that raises, \<open>Some (Inr (new_positions, cycle_num))\<close> a run that leaves the
  loop with these values of the two variables. The periodic \<^verbatim>\<open>print\<close> of the
  displacements does not affect the control flow and is left out.
\<close>

partial_function (option) relax ::
  "real \<Rightarrow> real \<Rightarrow> electron list \<Rightarrow> nat \<Rightarrow> (error + vec3 list \<times> nat) option" where
  "relax tolerance relaxation_factor es cycle_num =
     (case iteration relaxation_factor es of
        Inl err \<Rightarrow> Some (Inl err)
      | Inr r \<Rightarrow>
          if list_all (\<lambda>i. i < tolerance) (convergence_list r)
          then Some (Inr (new_positions r, cycle_num + 1))
          else relax tolerance relaxation_factor (electrons r) (cycle_num + 1))"

definition solve_thomson :: "int \<Rightarrow> real \<Rightarrow> real \<Rightarrow> (nat \<Rightarrow> real) \<Rightarrow> (error + vec3 list) option" where
  "solve_thomson n tolerance relaxation_factor rnd =
     (case init_electrons n rnd of
        Inl err \<Rightarrow> Some (Inl err)
      | Inr es \<Rightarrow>
          (case relax tolerance relaxation_factor es 0 of
             None \<Rightarrow> None
           | Some (Inl err) \<Rightarrow> Some (Inl err)
           | Some (Inr (positions, cycle_num)) \<Rightarrow> Some (Inr positions)))"

text \<open>
  The electrons after \<open>k\<close> completed iterations, for stating what holds
  ``after every iteration''.
\<close>

fun after_iterations :: "real \<Rightarrow> nat \<Rightarrow> electron list \<Rightarrow> error + electron list" where
  "after_iterations relaxation_factor 0 es = Inr es"
| "after_iterations relaxation_factor (Suc k) es =
     (case iteration relaxation_factor es of
        Inl err \<Rightarrow> Inl err
      | Inr r \<Rightarrow> after_iterations relaxation_factor k (electrons r))"

text \<open>
  The Euclidean displacement of every electron between two states of the list,
  for stating the convergence test in terms of the electrons.
\<close>

definition displacements :: "electron list \<Rightarrow> electron list \<Rightarrow> real list" where
  "displacements before after =
     map (\<lambda>i. mag (pos (after ! i) - pos (before ! i))) [0..<length before]"

section \<open>The two-phase form of an iteration\<close>

text \<open>
  The specification describes an iteration as two phases over an immutable
  snapshot: first every acceleration is computed from the positions of the
  previous iteration, then every velocity and position is updated. The
  definitions of this section follow that description; they are compared
  with \<open>iteration\<close> below.
\<close>

text \<open>The contribution of a charge at \<open>q\<close> to the acceleration of a charge at \<open>p\<close>.\<close>

definition pair_accel :: "vec3 \<Rightarrow> vec3 \<Rightarrow> vec3" where
  "pair_accel p q = scale (direction (p - q)) (1 / (mag (p - q))\<^sup>2)"

definition snapshot_accel :: "vec3 list \<Rightarrow> nat \<Rightarrow> error + vec3" where
  "snapshot_accel snapshot i =
     (if list_ex (\<lambda>j. j \<noteq> i \<and> snapshot ! j = snapshot ! i) [0..<length snapshot]
      then Inl ZeroDivisionError
      else Inr (sum_list (map (\<lambda>j. pair_accel (snapshot ! i) (snapshot ! j))
                  (filter (\<lambda>j. j \<noteq> i) [0..<length snapshot]))))"

definition apply_update :: "real \<Rightarrow> vec3 \<Rightarrow> electron \<Rightarrow> error + electron" where
  "apply_update relaxation_factor accel e =
     (let v1 = vel e + scale (accel - scale accel (9 / 10)) relaxation_factor
      in if pos e = 0 then Inl ZeroDivisionError
         else
           let v2 = v1 - scale (direction (pos e)) (dot v1 (direction (pos e)));
               p1 = pos e + v2
           in if p1 = 0 then Inl ZeroDivisionError
              else Inr \<lparr>pos = direction p1, vel = v2\<rparr>)"

fun collect :: "(error + 'a) list \<Rightarrow> error + 'a list" where
  "collect [] = Inr []"
| "collect (r # rs) =
     (case r of
        Inl err \<Rightarrow> Inl err
      | Inr v \<Rightarrow> (case collect rs of Inl err \<Rightarrow> Inl err | Inr vs \<Rightarrow> Inr (v # vs)))"

definition two_phase_iteration :: "real \<Rightarrow> electron list \<Rightarrow> error + iteration_result" where
  "two_phase_iteration relaxation_factor es =
     (let snapshot = map pos es
      in case collect (map (snapshot_accel snapshot) [0..<length es]) of
           Inl err \<Rightarrow> Inl err
         | Inr accels \<Rightarrow>
             (case collect (map2 (apply_update relaxation_factor) accels es) of
                Inl err \<Rightarrow> Inl err
              | Inr es' \<Rightarrow>
                  Inr \<lparr>electrons = es',
                       old_positions = snapshot,
                       new_positions = map pos es',
                       convergence_list = map2 (\<lambda>p q. mag (q - p)) snapshot (map pos es')\<rparr>))"

section \<open>Sample runs\<close>

text \<open>
  Two fixed outcomes of the random sampler, used to run the solver on concrete
  inputs: \<open>rnd_single\<close> yields the raw vector \<open>(1, 0, 0)\<close> for the first
  electron; \<open>rnd_pair\<close> yields \<open>(1, 0, 0)\<close> and \<open>(-7/25, 24/25, 0)\<close> for
  the first two. Both raw vectors already have length one.
\<close>

definition rnd_single :: "nat \<Rightarrow> real" where
  "rnd_single k = (if k = 0 then 1 else 0)"

definition rnd_pair :: "nat \<Rightarrow> real" where
  "rnd_pair k = (if k = 0 then 1 else if k = 3 then - 7 / 25 else if k = 4 then 24 / 25 else 0)"

definition e_single :: electron where
  "e_single = \<lparr>pos = vec3 1 0 0, vel = vec3 0 0 0\<rparr>"

definition es_pair :: "electron list" where
  "es_pair = [\<lparr>pos = vec3 1 0 0, vel = vec3 0 0 0\<rparr>,
              \<lparr>pos = vec3 (- 7 / 25) (24 / 25) 0, vel = vec3 0 0 0\<rparr>]"

text \<open>The two electrons of \<open>es_pair\<close> after one iteration with relaxation factor 32.\<close>

definition es_pair_moved :: "electron list" where
  "es_pair_moved = [\<lparr>pos = vec3 (4 / 5) (- 3 / 5) 0, vel = vec3 0 (- 3 / 4) 0\<rparr>,
                    \<lparr>pos = vec3 (- 4 / 5) (3 / 5) 0, vel = vec3 (- 18 / 25) (- 21 / 100) 0\<rparr>]"

text \<open>The same two electrons after a second iteration with relaxation factor 32.\<close>

definition es_pair_settled :: "electron list" where
  "es_pair_settled =
     [\<lparr>pos = vec3 (11 / (5 * sqrt 34)) (- 27 / (5 * sqrt 34)) 0, vel = vec3 (- 9 / 25) (- 12 / 25) 0\<rparr>,
      \<lparr>pos = vec3 (- 29 / (5 * sqrt 34)) (3 / (5 * sqrt 34)) 0, vel = vec3 (- 9 / 25) (- 12 / 25) 0\<rparr>]"

section \<open>Facts about vectors\<close>

lemma error_eq: "(e::error) = ZeroDivisionError"
  by (cases e) simp

lemma vec3_zero_simps: "x 0 = 0" "y 0 = 0" "z 0 = 0" "vec3 0 0 0 = 0"
  by (simp_all add: zero_vec3_def)

lemma mag_nonneg: "0 \<le> mag a"
  by (simp add: mag_def)

lemma mag_eq_0_iff: "mag a = 0 \<longleftrightarrow> a = 0"
proof -
  have "x a * x a + y a * y a + z a * z a = 0 \<longleftrightarrow> x a = 0 \<and> y a = 0 \<and> z a = 0"
    by (smt (verit) mult_eq_0_iff zero_le_square)
  then show ?thesis
    by (cases a) (simp add: mag_def zero_vec3_def)
qed

lemma mag_diff_eq_0_iff: "mag (a - b) = 0 \<longleftrightarrow> a = b"
  by (simp add: mag_eq_0_iff)

lemma mag_square: "mag a * mag a = x a * x a + y a * y a + z a * z a"
  by (simp add: mag_def)

lemma mag_direction: assumes "mag a \<noteq> 0" shows "mag (direction a) = 1"
proof -
  let ?m = "mag a"
  have "x a / ?m * (x a / ?m) + y a / ?m * (y a / ?m) + z a / ?m * (z a / ?m)
        = (x a * x a + y a * y a + z a * z a) / (?m * ?m)"
    by (simp add: add_divide_distrib)
  also have "\<dots> = 1"
    using assms by (simp add: mag_square [symmetric])
  finally show ?thesis
    by (simp add: mag_def direction_def)
qed

lemma direction_unit: assumes "mag a = 1" shows "direction a = a"
  using assms by (cases a) (simp add: direction_def)

lemma normalized_Inr_iff: "normalized a = Inr b \<longleftrightarrow> a \<noteq> 0 \<and> b = direction a"
  by (auto simp: normalized_def mag_eq_0_iff)

lemma normalized_Inl_iff: "normalized a = Inl err \<longleftrightarrow> a = 0"
  by (cases err) (auto simp: normalized_def mag_eq_0_iff)

lemma dot_direction_self: assumes "a \<noteq> 0" shows "dot (direction a) (direction a) = 1"
proof -
  have "mag (direction a) * mag (direction a) = 1"
    using assms by (simp add: mag_direction mag_eq_0_iff)
  then show ?thesis by (simp add: mag_square dot_def)
qed

lemma calc_accel_eq:
  "calc_accel e e2 = (if pos e = pos e2 then Inl ZeroDivisionError else Inr (pair_accel (pos e) (pos e2)))"
  by (simp add: calc_accel_def normalized_def mag_diff_eq_0_iff pair_accel_def)


section \<open>The loops of an iteration in closed form\<close>

lemma collect_map:
  "collect (map f xs) =
     (if \<exists>x\<in>set xs. isl (f x) then Inl ZeroDivisionError else Inr (map (\<lambda>x. projr (f x)) xs))"
proof (induction xs)
  case Nil
  show ?case by simp
next
  case (Cons a xs)
  show ?case
  proof (cases "f a")
    case (Inl err)
    then show ?thesis by (simp add: error_eq [of err])
  next
    case (Inr v)
    then show ?thesis using Cons.IH by simp
  qed
qed

lemma accel_inner_enumerate:
  "accel_inner e i j rest tot =
     (if \<exists>(k, e2)\<in>set (enumerate j rest). k \<noteq> i \<and> pos e2 = pos e then Inl ZeroDivisionError
      else Inr (tot + sum_list (map (\<lambda>(k, e2). pair_accel (pos e) (pos e2))
                  (filter (\<lambda>(k, e2). k \<noteq> i) (enumerate j rest)))))"
proof (induction rest arbitrary: j tot)
  case Nil
  show ?case by simp
next
  case (Cons e2 rest)
  show ?case
  proof (cases "i = j")
    case True
    then show ?thesis
      using Cons.IH [of "Suc j" tot] by simp
  next
    case False
    then show ?thesis
      by (simp add: Cons.IH [of "Suc j"] calc_accel_eq add.assoc)
  qed
qed


lemma enumerate_filter_sum:
  "sum_list (map (\<lambda>(k, e2). f (pos e2)) (filter (\<lambda>(k, e2). k \<noteq> i) (enumerate 0 es)))
   = sum_list (map (\<lambda>j. f (map pos es ! j)) (filter (\<lambda>j. j \<noteq> i) [0..<length es]))"
proof -
  have e: "enumerate 0 es = map (\<lambda>j. (j, es ! j)) [0..<length es]"
    by (rule nth_equalityI) (simp_all add: nth_enumerate_eq)
  have "map (\<lambda>(k, e2). f (pos e2)) (filter (\<lambda>(k, e2). k \<noteq> i) (enumerate 0 es))
        = map (\<lambda>j. f (pos (es ! j))) (filter (\<lambda>j. j \<noteq> i) [0..<length es])"
    unfolding e by (simp add: filter_map comp_def)
  also have "\<dots> = map (\<lambda>j. f (map pos es ! j)) (filter (\<lambda>j. j \<noteq> i) [0..<length es])"
    by (rule map_cong) simp_all
  finally show ?thesis by simp
qed

lemma accel_inner_snapshot:
  assumes "i < length es"
  shows "accel_inner (es ! i) i 0 es (vec3 0 0 0) = snapshot_accel (map pos es) i"
proof -
  have "(\<exists>(k, e2)\<in>set (enumerate 0 es). k \<noteq> i \<and> pos e2 = pos (es ! i))
        \<longleftrightarrow> list_ex (\<lambda>j. j \<noteq> i \<and> map pos es ! j = map pos es ! i) [0..<length (map pos es)]"
    using assms by (auto simp: in_set_enumerate_eq list_ex_iff)
  then show ?thesis
    using assms
    by (simp add: accel_inner_enumerate snapshot_accel_def enumerate_filter_sum vec3_zero_simps
             cong: map_cong filter_cong)
qed

lemma accel_outer_snapshot:
  assumes "rest = drop i es"
  shows "accel_outer es i rest accs =
     (case collect (map (snapshot_accel (map pos es)) [i..<length es]) of
        Inl err \<Rightarrow> Inl err | Inr ts \<Rightarrow> Inr (accs @ ts))"
  using assms
proof (induction rest arbitrary: i accs)
  case Nil
  then have "length es \<le> i" by simp
  then show ?case by simp
next
  case (Cons e rest)
  from Cons.prems have i: "i < length es"
    by (metis drop_eq_Nil linorder_not_less list.distinct(1))
  with Cons.prems have e: "e = es ! i" and rest: "rest = drop (Suc i) es"
    by (simp_all add: Cons_nth_drop_Suc [symmetric])
  have u: "[i..<length es] = i # [Suc i..<length es]"
    using i by (simp add: upt_conv_Cons)
  show ?case
    using i
    by (simp add: e u accel_inner_snapshot Cons.IH [OF rest] split: sum.splits)
qed

lemma calc_accels_snapshot:
  "calc_accels es = collect (map (snapshot_accel (map pos es)) [0..<length es])"
  by (simp add: calc_accels_def accel_outer_snapshot split: sum.splits)

lemma vel_loop_map:
  assumes "distinct idxs" and "set idxs \<subseteq> {..<length es}"
  shows "vel_loop rf accs idxs es =
     (if \<exists>i\<in>set idxs. isl (vel_body rf (accs ! i) (es ! i)) then Inl ZeroDivisionError
      else Inr (map (\<lambda>i. if i \<in> set idxs then projr (vel_body rf (accs ! i) (es ! i)) else es ! i)
                  [0..<length es]))"
  using assms
proof (induction idxs arbitrary: es)
  case Nil
  show ?case by (simp add: map_nth)
next
  case (Cons idx rest)
  show ?case
  proof (cases "vel_body rf (accs ! idx) (es ! idx)")
    case (Inl err)
    then show ?thesis by (simp add: error_eq [of err])
  next
    case (Inr e)
    let ?es = "es[idx := e]"
    from Cons.prems have d: "distinct rest" "idx \<notin> set rest" "idx < length es"
      and sub: "set rest \<subseteq> {..<length ?es}"
      by auto
    have same: "\<And>i. i \<in> set rest \<Longrightarrow> ?es ! i = es ! i"
      using d by (metis nth_list_update_neq)
    have ex: "(\<exists>i\<in>set rest. isl (vel_body rf (accs ! i) (?es ! i)))
              \<longleftrightarrow> (\<exists>i\<in>set rest. isl (vel_body rf (accs ! i) (es ! i)))"
      using same by auto
    have m: "map (\<lambda>i. if i \<in> set rest then projr (vel_body rf (accs ! i) (?es ! i)) else ?es ! i)
               [0..<length ?es]
           = map (\<lambda>i. if i \<in> set (idx # rest) then projr (vel_body rf (accs ! i) (es ! i))
                       else es ! i) [0..<length es]"
      using d same Inr by (auto simp: nth_list_update)
    show ?thesis
      using Inr Cons.IH [OF d(1) sub] m by (simp add: ex)
  qed
qed

lemma pos_loop_map:
  assumes "distinct idxs" and "set idxs \<subseteq> {..<length (ps_electrons s)}"
  shows "pos_loop idxs s =
     (if \<exists>i\<in>set idxs. isl (pos_body (ps_electrons s ! i)) then Inl ZeroDivisionError
      else Inr \<lparr>ps_electrons =
                  map (\<lambda>i. if i \<in> set idxs then projr (pos_body (ps_electrons s ! i))
                            else ps_electrons s ! i) [0..<length (ps_electrons s)],
                ps_old_positions = ps_old_positions s @ map (\<lambda>i. pos (ps_electrons s ! i)) idxs,
                ps_new_positions =
                  ps_new_positions s @ map (\<lambda>i. pos (projr (pos_body (ps_electrons s ! i)))) idxs\<rparr>)"
  using assms
proof (induction idxs arbitrary: s)
  case Nil
  show ?case by (simp add: map_nth)
next
  case (Cons idx rest)
  let ?es = "ps_electrons s"
  show ?case
  proof (cases "pos_body (?es ! idx)")
    case (Inl err)
    then show ?thesis by (simp add: error_eq [of err])
  next
    case (Inr e)
    let ?s = "\<lparr>ps_electrons = ?es[idx := e],
               ps_old_positions = ps_old_positions s @ [pos (?es ! idx)],
               ps_new_positions = ps_new_positions s @ [pos e]\<rparr>"
    from Cons.prems have d: "distinct rest" "idx \<notin> set rest" "idx < length ?es"
      and sub: "set rest \<subseteq> {..<length (ps_electrons ?s)}"
      by auto
    have same: "\<And>i. i \<in> set rest \<Longrightarrow> ?es[idx := e] ! i = ?es ! i"
      using d by (metis nth_list_update_neq)
    have ex: "(\<exists>i\<in>set rest. isl (pos_body (?es[idx := e] ! i)))
              \<longleftrightarrow> (\<exists>i\<in>set rest. isl (pos_body (?es ! i)))"
      using same by auto
    have m: "map (\<lambda>i. if i \<in> set rest then projr (pos_body (?es[idx := e] ! i))
                       else ?es[idx := e] ! i) [0..<length ?es]
           = map (\<lambda>i. if i \<in> set (idx # rest) then projr (pos_body (?es ! i)) else ?es ! i)
               [0..<length ?es]"
      using d same Inr by (auto simp: nth_list_update)
    have o: "map (\<lambda>i. pos (?es[idx := e] ! i)) rest = map (\<lambda>i. pos (?es ! i)) rest"
      using same by simp
    have n: "map (\<lambda>i. pos (projr (pos_body (?es[idx := e] ! i)))) rest
           = map (\<lambda>i. pos (projr (pos_body (?es ! i)))) rest"
      using same by simp
    have "pos_loop (idx # rest) s = pos_loop rest ?s"
      using Inr by (simp add: Let_def)
    also have "\<dots> =
      (if \<exists>i\<in>set rest. isl (pos_body (?es[idx := e] ! i)) then Inl ZeroDivisionError
       else Inr \<lparr>ps_electrons =
                  map (\<lambda>i. if i \<in> set rest then projr (pos_body (?es[idx := e] ! i))
                            else ?es[idx := e] ! i) [0..<length ?es],
                 ps_old_positions =
                   (ps_old_positions s @ [pos (?es ! idx)]) @ map (\<lambda>i. pos (?es[idx := e] ! i)) rest,
                 ps_new_positions =
                   (ps_new_positions s @ [pos e])
                   @ map (\<lambda>i. pos (projr (pos_body (?es[idx := e] ! i)))) rest\<rparr>)"
      by (subst Cons.IH [OF d(1) sub]) simp
    also have "\<dots> =
      (if \<exists>i\<in>set rest. isl (pos_body (?es ! i)) then Inl ZeroDivisionError
       else Inr \<lparr>ps_electrons =
                  map (\<lambda>i. if i \<in> set (idx # rest) then projr (pos_body (?es ! i)) else ?es ! i)
                    [0..<length ?es],
                 ps_old_positions =
                   (ps_old_positions s @ [pos (?es ! idx)]) @ map (\<lambda>i. pos (?es ! i)) rest,
                 ps_new_positions =
                   (ps_new_positions s @ [pos e]) @ map (\<lambda>i. pos (projr (pos_body (?es ! i)))) rest\<rparr>)"
      by (simp only: ex m o n)
    finally show ?thesis
      using Inr by simp
  qed
qed

lemma vel_body_eq:
  "vel_body rf a e =
     (if pos e = 0 then Inl ZeroDivisionError
      else Inr (e\<lparr>vel := (vel e + scale (a - scale a (9 / 10)) rf)
                       - scale (direction (pos e))
                           (dot (vel e + scale (a - scale a (9 / 10)) rf) (direction (pos e)))\<rparr>))"
  by (simp add: vel_body_def update_vel_def normalized_def mag_eq_0_iff Let_def)

lemma pos_body_eq:
  "pos_body e =
     (if pos e + vel e = 0 then Inl ZeroDivisionError
      else Inr (e\<lparr>pos := direction (pos e + vel e)\<rparr>))"
  by (simp add: pos_body_def update_pos_def normalized_def mag_eq_0_iff Let_def)

lemma apply_update_eq:
  "apply_update rf a e = (case vel_body rf a e of Inl err \<Rightarrow> Inl err | Inr e1 \<Rightarrow> pos_body e1)"
  by (cases e) (simp add: apply_update_def vel_body_eq pos_body_eq Let_def)

lemma vel_body_pos: "vel_body rf a e = Inr e1 \<Longrightarrow> pos e1 = pos e"
  by (auto simp: vel_body_eq split: if_splits)

lemma collect_length: "collect rs = Inr vs \<Longrightarrow> length vs = length rs"
  by (induction rs arbitrary: vs) (auto split: sum.splits)

lemma calc_accels_length: "calc_accels es = Inr accs \<Longrightarrow> length accs = length es"
  by (simp add: calc_accels_snapshot collect_length)

lemma iteration_index_form:
  assumes "calc_accels es = Inr accs"
  shows "iteration rf es =
     (if \<exists>i<length es. isl (apply_update rf (accs ! i) (es ! i)) then Inl ZeroDivisionError
      else Inr \<lparr>electrons = map (\<lambda>i. projr (apply_update rf (accs ! i) (es ! i))) [0..<length es],
                old_positions = map pos es,
                new_positions =
                  map (\<lambda>i. pos (projr (apply_update rf (accs ! i) (es ! i)))) [0..<length es],
                convergence_list =
                  map (\<lambda>i. mag (pos (projr (apply_update rf (accs ! i) (es ! i))) - pos (es ! i)))
                    [0..<length es]\<rparr>)"
proof -
  let ?n = "length es"
  let ?v = "\<lambda>i. vel_body rf (accs ! i) (es ! i)"
  let ?es1 = "map (\<lambda>i. projr (?v i)) [0..<?n]"
  let ?u = "\<lambda>i. apply_update rf (accs ! i) (es ! i)"
  have vl: "vel_loop rf accs [0..<?n] es =
      (if \<exists>i<?n. isl (?v i) then Inl ZeroDivisionError else Inr ?es1)"
    by (subst vel_loop_map) (auto intro!: map_cong)
  show ?thesis
  proof (cases "\<exists>i<?n. isl (?v i)")
    case True
    then have "\<exists>i<?n. isl (?u i)"
      by (auto simp: apply_update_eq split: sum.splits)
    with True show ?thesis
      by (simp add: iteration_def assms vl)
  next
    case False
    then have v: "\<And>i. i < ?n \<Longrightarrow> ?v i = Inr (?es1 ! i)"
      by (auto simp: isl_def)
    have u: "?u i = pos_body (?es1 ! i)" if "i < ?n" for i
      using False that by (cases "?v i") (auto simp: apply_update_eq)
    have p: "\<And>i. i < ?n \<Longrightarrow> pos (?es1 ! i) = pos (es ! i)"
      using v vel_body_pos by blast
    have pl: "pos_loop [0..<length ?es1]
                \<lparr>ps_electrons = ?es1, ps_old_positions = [], ps_new_positions = []\<rparr> =
        (if \<exists>i<?n. isl (?u i) then Inl ZeroDivisionError
         else Inr \<lparr>ps_electrons = map (\<lambda>i. projr (?u i)) [0..<?n],
                   ps_old_positions = map pos es,
                   ps_new_positions = map (\<lambda>i. pos (projr (?u i))) [0..<?n]\<rparr>)"
    proof -
      have a: "(\<exists>i\<in>set [0..<?n]. isl (pos_body (?es1 ! i))) \<longleftrightarrow> (\<exists>i<?n. isl (?u i))"
        using u by auto
      have b: "map (\<lambda>i. if i \<in> set [0..<?n] then projr (pos_body (?es1 ! i)) else ?es1 ! i) [0..<?n]
               = map (\<lambda>i. projr (?u i)) [0..<?n]"
        using u by (auto intro!: map_cong)
      have c: "map (\<lambda>i. pos (?es1 ! i)) [0..<?n] = map pos es"
        using p by (auto intro!: nth_equalityI)
      have d: "map (\<lambda>i. pos (projr (pos_body (?es1 ! i)))) [0..<?n]
               = map (\<lambda>i. pos (projr (?u i))) [0..<?n]"
        using u by (auto intro!: map_cong)
      have "pos_loop [0..<?n]
               \<lparr>ps_electrons = ?es1, ps_old_positions = [], ps_new_positions = []\<rparr> =
        (if \<exists>i\<in>set [0..<?n]. isl (pos_body (?es1 ! i)) then Inl ZeroDivisionError
         else Inr \<lparr>ps_electrons =
                     map (\<lambda>i. if i \<in> set [0..<?n] then projr (pos_body (?es1 ! i)) else ?es1 ! i)
                       [0..<?n],
                   ps_old_positions = map (\<lambda>i. pos (?es1 ! i)) [0..<?n],
                   ps_new_positions = map (\<lambda>i. pos (projr (pos_body (?es1 ! i)))) [0..<?n]\<rparr>)"
        by (subst pos_loop_map) auto
      then show ?thesis
        by (simp only: a b c d length_map length_upt minus_nat.diff_0)
    qed
    have cv: "convergence_of (map pos es) (map (\<lambda>i. pos (projr (?u i))) [0..<?n])
              = map (\<lambda>i. mag (pos (projr (?u i)) - pos (es ! i))) [0..<?n]"
      by (simp add: convergence_of_def)
    have vl': "vel_loop rf accs [0..<?n] es = Inr ?es1"
      using False vl by simp
    show ?thesis
      by (simp add: iteration_def assms vl' pl cv del: length_map)
  qed
qed

lemma zip_index: "length xs = length ys \<Longrightarrow> zip xs ys = map (\<lambda>i. (xs ! i, ys ! i)) [0..<length ys]"
  by (rule nth_equalityI) simp_all

lemma two_phase_index_form:
  assumes "calc_accels es = Inr accs"
  shows "two_phase_iteration rf es =
     (if \<exists>i<length es. isl (apply_update rf (accs ! i) (es ! i)) then Inl ZeroDivisionError
      else Inr \<lparr>electrons = map (\<lambda>i. projr (apply_update rf (accs ! i) (es ! i))) [0..<length es],
                old_positions = map pos es,
                new_positions =
                  map (\<lambda>i. pos (projr (apply_update rf (accs ! i) (es ! i)))) [0..<length es],
                convergence_list =
                  map (\<lambda>i. mag (pos (projr (apply_update rf (accs ! i) (es ! i))) - pos (es ! i)))
                    [0..<length es]\<rparr>)"
proof -
  let ?n = "length es"
  let ?u = "\<lambda>i. apply_update rf (accs ! i) (es ! i)"
  have len: "length accs = ?n"
    using assms by (rule calc_accels_length)
  have c1: "collect (map (snapshot_accel (map pos es)) [0..<?n]) = Inr accs"
    using assms by (simp add: calc_accels_snapshot)
  have "map2 (apply_update rf) accs es = map ?u [0..<?n]"
    by (simp add: zip_index [OF len])
  then have c2: "collect (map2 (apply_update rf) accs es) =
      (if \<exists>i<?n. isl (?u i) then Inl ZeroDivisionError else Inr (map (\<lambda>i. projr (?u i)) [0..<?n]))"
    by (simp only: collect_map) auto
  show ?thesis
  proof (cases "\<exists>i<?n. isl (?u i)")
    case True
    with c2 have "collect (map2 (apply_update rf) accs es) = Inl ZeroDivisionError"
      by simp
    with True show ?thesis
      by (simp add: two_phase_iteration_def c1)
  next
    case False
    with c2 have "collect (map2 (apply_update rf) accs es) = Inr (map (\<lambda>i. projr (?u i)) [0..<?n])"
      by simp
    moreover have "map pos (map (\<lambda>i. projr (?u i)) [0..<?n]) = map (\<lambda>i. pos (projr (?u i))) [0..<?n]"
      by simp
    ultimately show ?thesis
      using False unfolding two_phase_iteration_def Let_def c1
      by (simp add: comp_def) (rule nth_equalityI, simp_all)
  qed
qed

lemma iteration_two_phase: "iteration rf es = two_phase_iteration rf es"
proof (cases "calc_accels es")
  case (Inl err)
  then show ?thesis
    by (simp add: iteration_def two_phase_iteration_def calc_accels_snapshot [symmetric])
next
  case (Inr accs)
  then show ?thesis
    by (simp only: iteration_index_form two_phase_index_form)
qed

lemma iteration_InrD:
  assumes "iteration rf es = Inr r"
  shows "\<exists>accs. calc_accels es = Inr accs \<and> length accs = length es
           \<and> length (electrons r) = length es
           \<and> (\<forall>i<length es. apply_update rf (accs ! i) (es ! i) = Inr (electrons r ! i))
           \<and> old_positions r = map pos es
           \<and> new_positions r = map pos (electrons r)
           \<and> convergence_list r = map (\<lambda>i. mag (pos (electrons r ! i) - pos (es ! i))) [0..<length es]"
proof (cases "calc_accels es")
  case (Inl err)
  with assms show ?thesis by (simp add: iteration_def)
next
  case (Inr accs)
  let ?u = "\<lambda>i. apply_update rf (accs ! i) (es ! i)"
  from assms have no: "\<not> (\<exists>i<length es. isl (?u i))"
    by (auto simp: iteration_index_form [OF Inr] split: if_splits)
  with assms have r: "r = \<lparr>electrons = map (\<lambda>i. projr (?u i)) [0..<length es],
                old_positions = map pos es,
                new_positions = map (\<lambda>i. pos (projr (?u i))) [0..<length es],
                convergence_list = map (\<lambda>i. mag (pos (projr (?u i)) - pos (es ! i))) [0..<length es]\<rparr>"
    by (simp add: iteration_index_form [OF Inr])
  have u: "?u i = Inr (electrons r ! i)" if "i < length es" for i
    using no that by (cases "?u i") (auto simp: r)
  have "new_positions r = map pos (electrons r)"
    by (simp add: r)
  moreover have "convergence_list r = map (\<lambda>i. mag (pos (electrons r ! i) - pos (es ! i))) [0..<length es]"
    by (simp add: r)
  moreover have "length (electrons r) = length es" "old_positions r = map pos es"
    by (simp_all add: r)
  ultimately show ?thesis
    using Inr calc_accels_length [OF Inr] u by blast
qed

lemma apply_update_InrD:
  assumes "apply_update rf a e = Inr e'"
  shows "pos e \<noteq> 0" and "mag (pos e') = 1"
    and "dot (vel e') (direction (pos e)) = 0"
    and "pos e' = direction (pos e + vel e')"
    and "vel e' = (vel e + scale (a - scale a (9 / 10)) rf)
                   - scale (direction (pos e))
                       (dot (vel e + scale (a - scale a (9 / 10)) rf) (direction (pos e)))"
proof -
  let ?v1 = "vel e + scale (a - scale a (9 / 10)) rf"
  let ?d = "direction (pos e)"
  let ?v2 = "?v1 - scale ?d (dot ?v1 ?d)"
  from assms show p: "pos e \<noteq> 0"
    by (auto simp: apply_update_def Let_def split: if_splits)
  from assms p have nz: "pos e + ?v2 \<noteq> 0" and e': "e' = \<lparr>pos = direction (pos e + ?v2), vel = ?v2\<rparr>"
    by (auto simp: apply_update_def Let_def split: if_splits)
  show "mag (pos e') = 1"
    using nz by (simp add: e' mag_direction mag_eq_0_iff)
  have "dot ?v2 ?d = dot ?v1 ?d - dot ?v1 ?d * dot ?d ?d"
    by (simp add: dot_def scale_def minus_vec3_def algebra_simps)
  then show "dot (vel e') ?d = 0"
    using p by (simp add: e' dot_direction_self)
  show "pos e' = direction (pos e + vel e')" by (simp add: e')
  show "vel e' = ?v2" by (simp add: e')
qed

section \<open>The relaxation loop\<close>

lemma iteration_displacements:
  "iteration rf es = Inr r \<Longrightarrow> convergence_list r = displacements es (electrons r)"
  using iteration_InrD [of rf es r] by (auto simp: displacements_def)

lemma iteration_new_positions:
  "iteration rf es = Inr r \<Longrightarrow> new_positions r = map pos (electrons r)"
  using iteration_InrD [of rf es r] by auto

lemma after_iterations_Suc_end:
  "after_iterations rf (Suc k) es =
     (case after_iterations rf k es of
        Inl err \<Rightarrow> Inl err
      | Inr es' \<Rightarrow> (case iteration rf es' of Inl err \<Rightarrow> Inl err | Inr r \<Rightarrow> Inr (electrons r)))"
proof (induction k arbitrary: es)
  case 0
  show ?case by (simp split: sum.splits)
next
  case (Suc k)
  show ?case
  proof (cases "iteration rf es")
    case (Inl err)
    then show ?thesis by simp
  next
    case (Inr r)
    then show ?thesis
      using Suc.IH [of "electrons r"] by simp
  qed
qed

lemma relax_SomeD:
  assumes "relax tol rf es c = Some (Inr (ps, c'))"
  shows "\<exists>k. c' = c + k + 1
          \<and> (\<forall>j<k. \<exists>es_j r. after_iterations rf j es = Inr es_j \<and> iteration rf es_j = Inr r
                 \<and> (\<exists>d\<in>set (displacements es_j (electrons r)). tol \<le> d))
          \<and> (\<exists>es_k r. after_iterations rf k es = Inr es_k \<and> iteration rf es_k = Inr r
                 \<and> (\<forall>d\<in>set (displacements es_k (electrons r)). d < tol)
                 \<and> ps = map pos (electrons r))"
proof -
  let ?Q = "\<lambda>tol rf es c ps c'. \<exists>k. c' = c + k + 1
          \<and> (\<forall>j<k. \<exists>es_j r. after_iterations rf j es = Inr es_j \<and> iteration rf es_j = Inr r
                 \<and> (\<exists>d\<in>set (displacements es_j (electrons r)). tol \<le> d))
          \<and> (\<exists>es_k r. after_iterations rf k es = Inr es_k \<and> iteration rf es_k = Inr r
                 \<and> (\<forall>d\<in>set (displacements es_k (electrons r)). d < tol)
                 \<and> ps = map pos (electrons r))"
  have "\<forall>ps c'. y = Inr (ps, c') \<longrightarrow> ?Q tol rf es c ps c'" if "relax tol rf es c = Some y" for y
    using that
  proof (induction tol rf es c y rule: relax.raw_induct [rotated 1, consumes 1])
    case (1 relax' tol rf es c y)
    show ?case
    proof (intro allI impI)
      fix ps c'
      assume y: "y = Inr (ps, c')"
      show "?Q tol rf es c ps c'"
      proof (cases "iteration rf es")
        case (Inl err)
        with "1.hyps" y show ?thesis by simp
      next
        case (Inr r)
        note cl = iteration_displacements [OF Inr]
        show ?thesis
        proof (cases "list_all (\<lambda>i. i < tol) (convergence_list r)")
          case True
          with "1.hyps" y Inr have "c' = c + 0 + 1" "ps = map pos (electrons r)"
            by (simp_all add: iteration_new_positions)
          moreover have "\<forall>d\<in>set (displacements es (electrons r)). d < tol"
            using True by (simp add: cl list_all_iff)
          ultimately show ?thesis
            using Inr by (intro exI [of _ 0]) simp
        next
          case False
          with "1.hyps" y Inr have "relax' tol rf (electrons r) (c + 1) = Some (Inr (ps, c'))"
            by simp
          from "1.IH" [OF this] obtain k where
            k: "c' = c + 1 + k + 1"
            and early: "\<forall>j<k. \<exists>es_j r'. after_iterations rf j (electrons r) = Inr es_j
                   \<and> iteration rf es_j = Inr r'
                   \<and> (\<exists>d\<in>set (displacements es_j (electrons r')). tol \<le> d)"
            and final: "\<exists>es_k r'. after_iterations rf k (electrons r) = Inr es_k
                   \<and> iteration rf es_k = Inr r'
                   \<and> (\<forall>d\<in>set (displacements es_k (electrons r')). d < tol)
                   \<and> ps = map pos (electrons r')"
            by blast
          from False have first: "\<exists>d\<in>set (displacements es (electrons r)). tol \<le> d"
            by (auto simp: cl list_all_iff not_less)
          have "\<exists>es_j r'. after_iterations rf j es = Inr es_j \<and> iteration rf es_j = Inr r'
                   \<and> (\<exists>d\<in>set (displacements es_j (electrons r')). tol \<le> d)"
            if "j < Suc k" for j
          proof (cases j)
            case 0
            then show ?thesis using Inr first by simp
          next
            case (Suc j')
            with that early show ?thesis using Inr by simp
          qed
          moreover have "c' = c + Suc k + 1" using k by simp
          moreover have "\<exists>es_k r'. after_iterations rf (Suc k) es = Inr es_k
                   \<and> iteration rf es_k = Inr r'
                   \<and> (\<forall>d\<in>set (displacements es_k (electrons r')). d < tol)
                   \<and> ps = map pos (electrons r')"
            using final Inr by simp
          ultimately show ?thesis by blast
        qed
      qed
    qed
  qed
  with assms show ?thesis by blast
qed

lemma solve_thomson_SomeD:
  assumes "solve_thomson n tol rf rnd = Some (Inr ps)"
  shows "\<exists>es c. init_electrons n rnd = Inr es \<and> relax tol rf es 0 = Some (Inr (ps, c))"
  using assms by (auto simp: solve_thomson_def split: sum.splits option.splits)

lemma init_loop_map:
  "init_loop rnd idxs acc =
     (if \<exists>i\<in>set idxs. sample rnd i = 0 then Inl ZeroDivisionError
      else Inr (acc @ map (\<lambda>i. new_electron (direction (sample rnd i))) idxs))"
proof (induction idxs arbitrary: acc)
  case Nil
  show ?case by simp
next
  case (Cons i rest)
  show ?case
    by (cases "sample rnd i = 0") (simp_all add: normalized_def mag_eq_0_iff Cons.IH)
qed

lemma init_electrons_eq:
  "init_electrons n rnd =
     (if \<exists>i<nat n. sample rnd i = 0 then Inl ZeroDivisionError
      else Inr (map (\<lambda>i. new_electron (direction (sample rnd i))) [0..<nat n]))"
  by (simp add: init_electrons_def init_loop_map)

lemma init_electrons_InrD:
  assumes "init_electrons n rnd = Inr es"
  shows "length es = nat n"
    and "\<And>i. i < nat n \<Longrightarrow> es ! i = new_electron (direction (sample rnd i))"
    and "\<And>i. i < nat n \<Longrightarrow> sample rnd i \<noteq> 0"
    and "\<And>e. e \<in> set es \<Longrightarrow> mag (pos e) = 1 \<and> vel e = 0"
proof -
  from assms have no: "\<not> (\<exists>i<nat n. sample rnd i = 0)"
    and es: "es = map (\<lambda>i. new_electron (direction (sample rnd i))) [0..<nat n]"
    by (auto simp: init_electrons_eq split: if_splits)
  show "length es = nat n" by (simp add: es)
  show "es ! i = new_electron (direction (sample rnd i))" if "i < nat n" for i
    using that by (simp add: es)
  show "sample rnd i \<noteq> 0" if "i < nat n" for i
    using that no by blast
  show "mag (pos e) = 1 \<and> vel e = 0" if "e \<in> set es" for e
    using that no
    by (auto simp: es new_electron_def mag_direction mag_eq_0_iff vec3_zero_simps)
qed


lemma iteration_unit:
  assumes "iteration rf es = Inr r" and "e' \<in> set (electrons r)"
  shows "mag (pos e') = 1"
proof -
  from iteration_InrD [OF assms(1)] obtain accs where
    len: "length (electrons r) = length es"
    and u: "\<forall>i<length es. apply_update rf (accs ! i) (es ! i) = Inr (electrons r ! i)"
    by blast
  from assms(2) obtain i where "i < length (electrons r)" "e' = electrons r ! i"
    by (auto simp: in_set_conv_nth)
  with len u have "apply_update rf (accs ! i) (es ! i) = Inr e'" by simp
  then show ?thesis by (rule apply_update_InrD)
qed

lemma sqrt_rat: "0 \<le> q \<Longrightarrow> q * q = r \<Longrightarrow> sqrt r = (q::real)"
  by (metis real_sqrt_abs2 abs_of_nonneg)

lemma scale_zero: "scale 0 k = 0" "scale a 0 = 0"
  by (simp_all add: scale_def zero_vec3_def)

lemma dot_zero: "dot 0 a = 0" "dot a 0 = 0"
  by (simp_all add: dot_def zero_vec3_def)

lemma mag_zero: "mag 0 = 0"
  by (simp add: mag_eq_0_iff)

lemma apply_update_rest:
  assumes "mag (pos e) = 1" and "vel e = 0" and "a = 0 \<or> rf = 0"
  shows "apply_update rf a e = Inr e"
proof -
  from assms(3) have "scale (a - scale a (9 / 10)) rf = 0"
    by (auto simp: scale_zero)
  moreover from assms(1) have "pos e \<noteq> 0"
    using mag_zero by force
  ultimately show ?thesis
    using assms(1,2)
    by (cases e) (simp add: apply_update_def Let_def scale_zero dot_zero direction_unit)
qed

lemma calc_accels_single: "calc_accels [e] = Inr [0]"
  by (simp add: calc_accels_def vec3_zero_simps)

lemma calc_accels_distinct:
  assumes "distinct (map pos es)"
  shows "\<exists>accs. calc_accels es = Inr accs"
proof -
  have "\<not> isl (snapshot_accel (map pos es) i)" if "i < length es" for i
    using assms that
    by (auto simp: snapshot_accel_def list_ex_iff distinct_conv_nth)
  then show ?thesis
    by (simp add: calc_accels_snapshot collect_map)
qed

lemma calc_accels_coincide:
  assumes "i < length es" "j < length es" "i \<noteq> j" "pos (es ! i) = pos (es ! j)"
  shows "calc_accels es = Inl ZeroDivisionError"
proof -
  have "isl (snapshot_accel (map pos es) i)"
    using assms by (auto simp: snapshot_accel_def list_ex_iff)
  with assms(1) show ?thesis
    by (auto simp: calc_accels_snapshot collect_map)
qed

lemma iteration_rest:
  assumes "calc_accels es = Inr accs"
    and "\<And>i. i < length es \<Longrightarrow> mag (pos (es ! i)) = 1 \<and> vel (es ! i) = 0 \<and> (accs ! i = 0 \<or> rf = 0)"
  shows "iteration rf es =
     Inr \<lparr>electrons = es, old_positions = map pos es, new_positions = map pos es,
          convergence_list = map (\<lambda>i. 0) [0..<length es]\<rparr>"
proof -
  have u: "apply_update rf (accs ! i) (es ! i) = Inr (es ! i)" if "i < length es" for i
    using assms(2) [OF that] by (simp add: apply_update_rest)
  have "map (\<lambda>i. projr (apply_update rf (accs ! i) (es ! i))) [0..<length es] = es"
    using u by (auto intro!: nth_equalityI)
  moreover have "map (\<lambda>i. pos (projr (apply_update rf (accs ! i) (es ! i)))) [0..<length es] = map pos es"
    using u by (auto intro!: nth_equalityI)
  moreover have "map (\<lambda>i. mag (pos (projr (apply_update rf (accs ! i) (es ! i))) - pos (es ! i)))
      [0..<length es] = map (\<lambda>i. 0) [0..<length es]"
    using u by (auto simp: mag_zero)
  moreover have "\<not> (\<exists>i<length es. isl (apply_update rf (accs ! i) (es ! i)))"
    using u by auto
  ultimately show ?thesis
    by (simp add: iteration_index_form [OF assms(1)])
qed

lemma relax_rest:
  assumes "iteration rf es =
     Inr \<lparr>electrons = es, old_positions = map pos es, new_positions = map pos es,
          convergence_list = map (\<lambda>i. 0) [0..<length es]\<rparr>"
    and "0 < tol"
  shows "relax tol rf es c = Some (Inr (map pos es, c + 1))"
  using assms by (subst relax.simps) (simp add: list_all_iff)

section \<open>Evaluating the sample runs\<close>

lemma init_single: "init_electrons 1 rnd_single = Inr [e_single]"
  by (simp add: init_electrons_def sample_def rnd_single_def normalized_def direction_def mag_def
        new_electron_def e_single_def)

lemma init_pair: "init_electrons 2 rnd_pair = Inr es_pair"
  by (simp add: init_electrons_def sample_def rnd_pair_def normalized_def direction_def mag_def
        new_electron_def es_pair_def upt_conv_Cons numeral_2_eq_2 sqrt_rat [of 1])

lemma e_single_unit: "mag (pos e_single) = 1" "vel e_single = 0"
  by (simp_all add: e_single_def mag_def zero_vec3_def)

lemma iteration_single:
  "iteration rf [e_single] =
     Inr \<lparr>electrons = [e_single], old_positions = [vec3 1 0 0], new_positions = [vec3 1 0 0],
          convergence_list = [0]\<rparr>"
  using iteration_rest [of "[e_single]" "[0]" rf]
  by (simp add: calc_accels_single e_single_unit) (simp add: e_single_def)

lemma relax_single: "0 < tol \<Longrightarrow> relax tol rf [e_single] c = Some (Inr ([vec3 1 0 0], c + 1))"
  by (subst relax.simps) (simp add: iteration_single)

lemma solve_single: "0 < tol \<Longrightarrow> solve_thomson 1 tol rf rnd_single = Some (Inr [vec3 1 0 0])"
  by (simp add: solve_thomson_def init_single relax_single)

lemma iteration_pair:
  "iteration 32 es_pair =
     Inr \<lparr>electrons = es_pair_moved,
          old_positions = [vec3 1 0 0, vec3 (- 7 / 25) (24 / 25) 0],
          new_positions = [vec3 (4 / 5) (- 3 / 5) 0, vec3 (- 4 / 5) (3 / 5) 0],
          convergence_list = [sqrt (2 / 5), sqrt (2 / 5)]\<rparr>"
  by (simp add: iteration_def calc_accels_def calc_accel_def vel_body_def pos_body_def
        update_vel_def update_pos_def normalized_def direction_def mag_def dot_def scale_def
        plus_vec3_def minus_vec3_def convergence_of_def Let_def vec3_zero_simps es_pair_def
        es_pair_moved_def upt_conv_Cons numeral_2_eq_2 power2_eq_square
        sqrt_rat [of 1] sqrt_rat [of "8 / 5"] sqrt_rat [of "5 / 4"])

lemma relax_pair: "relax 1 32 es_pair 0 = Some (Inr ([vec3 (4 / 5) (- 3 / 5) 0, vec3 (- 4 / 5) (3 / 5) 0], 1))"
  by (subst relax.simps) (simp add: iteration_pair)

lemma solve_pair:
  "solve_thomson 2 1 32 rnd_pair = Some (Inr [vec3 (4 / 5) (- 3 / 5) 0, vec3 (- 4 / 5) (3 / 5) 0])"
  by (simp add: solve_thomson_def init_pair relax_pair)

lemma after_iterations_pair: "after_iterations 32 1 es_pair = Inr es_pair_moved"
  by (simp add: iteration_pair)

lemma calc_accels_pair: "calc_accels es_pair = Inr [vec3 (5 / 16) (- 15 / 64) 0, vec3 (- 5 / 16) (15 / 64) 0]"
  by (simp add: calc_accels_def calc_accel_def normalized_def direction_def mag_def scale_def
        es_pair_def plus_vec3_def minus_vec3_def sqrt_rat [of "8 / 5"] power2_eq_square vec3_zero_simps)

lemma sqrt_34_25: "sqrt (34 / 25) = sqrt 34 / 5"
  by (simp add: real_sqrt_divide sqrt_rat [of 5])

lemma iteration_pair_moved:
  "iteration 32 es_pair_moved =
     Inr \<lparr>electrons = es_pair_settled,
          old_positions = map pos es_pair_moved,
          new_positions = map pos es_pair_settled,
          convergence_list = displacements es_pair_moved es_pair_settled\<rparr>"
  by (simp add: iteration_def calc_accels_def calc_accel_def vel_body_def pos_body_def
        update_vel_def update_pos_def normalized_def direction_def mag_def dot_def scale_def
        plus_vec3_def minus_vec3_def convergence_of_def Let_def vec3_zero_simps
        es_pair_moved_def es_pair_settled_def displacements_def
        upt_conv_Cons numeral_2_eq_2 power2_eq_square
        sqrt_rat [of 2] sqrt_34_25)

lemma sqrt_34_bounds: "0 < sqrt 34" "sqrt 34 < 640 / 103" "sqrt 34 * sqrt 34 = 34"
proof -
  show "0 < sqrt 34" by simp
  show "sqrt 34 < 640 / 103"
    by (rule real_less_lsqrt) (simp_all add: power2_eq_square)
  show "sqrt 34 * sqrt 34 = 34" by simp
qed

lemma displacements_pair_moved:
  "displacements es_pair_moved es_pair_settled = [sqrt (2 - 10 / sqrt 34), sqrt (2 - 10 / sqrt 34)]"
proof -
  let ?s = "sqrt 34"
  have s: "?s * ?s = 34" "?s \<noteq> 0" by simp_all
  have a: "(11 / (5 * ?s) - 4 / 5) * (11 / (5 * ?s) - 4 / 5)
           + (- 27 / (5 * ?s) + 3 / 5) * (- 27 / (5 * ?s) + 3 / 5) = 2 - 10 / ?s"
  proof -
    have "(11 / (5 * ?s) - 4 / 5) * (11 / (5 * ?s) - 4 / 5)
           + (- 27 / (5 * ?s) + 3 / 5) * (- 27 / (5 * ?s) + 3 / 5)
          = 850 / (25 * (?s * ?s)) + 1 - 10 / ?s"
      using s(2) by (simp add: field_simps)
    then show ?thesis by (simp add: s(1))
  qed
  have b: "(- 29 / (5 * ?s) + 4 / 5) * (- 29 / (5 * ?s) + 4 / 5)
           + (3 / (5 * ?s) - 3 / 5) * (3 / (5 * ?s) - 3 / 5) = 2 - 10 / ?s"
  proof -
    have "(- 29 / (5 * ?s) + 4 / 5) * (- 29 / (5 * ?s) + 4 / 5)
           + (3 / (5 * ?s) - 3 / 5) * (3 / (5 * ?s) - 3 / 5)
          = 850 / (25 * (?s * ?s)) + 1 - 10 / ?s"
      using s(2) by (simp add: field_simps)
    then show ?thesis by (simp add: s(1))
  qed
  have "displacements es_pair_moved es_pair_settled =
     [sqrt ((11 / (5 * ?s) - 4 / 5) * (11 / (5 * ?s) - 4 / 5)
           + (- 27 / (5 * ?s) + 3 / 5) * (- 27 / (5 * ?s) + 3 / 5)),
      sqrt ((- 29 / (5 * ?s) + 4 / 5) * (- 29 / (5 * ?s) + 4 / 5)
           + (3 / (5 * ?s) - 3 / 5) * (3 / (5 * ?s) - 3 / 5))]"
    by (simp add: displacements_def es_pair_moved_def es_pair_settled_def mag_def minus_vec3_def
          upt_conv_Cons numeral_2_eq_2 del: real_sqrt_mult_self)
  then show ?thesis by (simp only: a b)
qed

lemma displacement_pair_small: "sqrt (2 - 10 / sqrt 34) < 5 / 8"
proof (rule real_less_lsqrt)
  let ?s = "sqrt 34"
  have "103 / 64 < 10 / ?s"
    using sqrt_34_bounds(1,2) by (simp add: field_simps)
  then show "2 - 10 / ?s < (5 / 8)\<^sup>2"
    by (simp add: power2_eq_square)
  show "(0::real) \<le> 5 / 8" by simp
qed

lemma displacement_pair_large: "5 / 8 \<le> sqrt (2 / 5)"
  by (rule real_le_rsqrt) (simp add: power2_eq_square)

lemma relax_pair_two: "relax (5 / 8) 32 es_pair 0 = Some (Inr (map pos es_pair_settled, 2))"
proof -
  have n: "\<not> sqrt (2 / 5) < 5 / 8"
    using displacement_pair_large by simp
  have "relax (5 / 8) 32 es_pair_moved 1 = Some (Inr (map pos es_pair_settled, 2))"
    using displacement_pair_small
    by (subst relax.simps) (simp add: iteration_pair_moved displacements_pair_moved)
  then show ?thesis
    using n by (subst relax.simps) (simp add: iteration_pair)
qed

lemma solve_pair_two: "solve_thomson 2 (5 / 8) 32 rnd_pair = Some (Inr (map pos es_pair_settled))"
  by (simp add: solve_thomson_def init_pair relax_pair_two)

lemma after_iterations_pair_two: "after_iterations 32 2 es_pair = Inr es_pair_settled"
  by (simp add: numeral_2_eq_2 iteration_pair iteration_pair_moved)




section \<open>The claims\<close>

text \<open>
  C10. For \<open>n = 0\<close> and any tolerance, positive or not, the solver runs the
  loop body exactly once and returns the empty sequence: initialisation yields
  no electron, the loop leaves with \<open>cycle_num = 1\<close> and an empty list of
  positions, and no error is raised.
\<close>

theorem solve_thomson_zero_electrons:
  "init_electrons 0 rnd = Inr []
   \<and> relax tolerance relaxation_factor [] 0 = Some (Inr ([], 1))
   \<and> solve_thomson 0 tolerance relaxation_factor rnd = Some (Inr [])"
proof -
  have i: "init_electrons 0 rnd = Inr []"
    by (simp add: init_electrons_def)
  have "iteration relaxation_factor [] =
      Inr \<lparr>electrons = [], old_positions = [], new_positions = [], convergence_list = []\<rparr>"
    by (simp add: iteration_def calc_accels_def convergence_of_def)
  then have r: "relax tolerance relaxation_factor [] 0 = Some (Inr ([], 1))"
    by (subst relax.simps) simp
  show ?thesis
    by (simp add: i r solve_thomson_def)
qed

theorem solve_thomson_zero_electrons_witness:
  "init_electrons 0 rnd_single = Inr []
   \<and> relax (- 1) 1 [] 0 = Some (Inr ([], 1))
   \<and> solve_thomson 0 (- 1) 1 rnd_single = Some (Inr [])"
  using solve_thomson_zero_electrons [of rnd_single "- 1" 1] by simp

text \<open>
  C8. For \<open>n = 1\<close> and a positive tolerance the solver leaves the loop after
  exactly one iteration. The single electron receives the zero acceleration,
  keeps the zero velocity and does not move (its displacement is \<open>0\<close>), and
  the result is the one-element list of its initial position, the normalised
  raw sample. The raw sample is assumed not to be the zero vector, for which
  there is no initial position.
\<close>

theorem solve_thomson_single_electron:
  assumes "0 < tolerance" and "sample rnd 0 \<noteq> 0"
  shows "\<exists>p. p = direction (sample rnd 0) \<and> mag p = 1
           \<and> init_electrons 1 rnd = Inr [\<lparr>pos = p, vel = vec3 0 0 0\<rparr>]
           \<and> calc_accels [\<lparr>pos = p, vel = vec3 0 0 0\<rparr>] = Inr [vec3 0 0 0]
           \<and> iteration relaxation_factor [\<lparr>pos = p, vel = vec3 0 0 0\<rparr>] =
               Inr \<lparr>electrons = [\<lparr>pos = p, vel = vec3 0 0 0\<rparr>], old_positions = [p],
                    new_positions = [p], convergence_list = [0]\<rparr>
           \<and> relax tolerance relaxation_factor [\<lparr>pos = p, vel = vec3 0 0 0\<rparr>] 0 = Some (Inr ([p], 1))
           \<and> solve_thomson 1 tolerance relaxation_factor rnd = Some (Inr [p])"
proof -
  let ?p = "direction (sample rnd 0)"
  let ?e = "\<lparr>pos = ?p, vel = vec3 0 0 0\<rparr>"
  have m: "mag ?p = 1"
    using assms(2) by (simp add: mag_direction mag_eq_0_iff)
  have i: "init_electrons 1 rnd = Inr [?e]"
    using assms(2) by (simp add: init_electrons_eq new_electron_def)
  have a: "calc_accels [?e] = Inr [vec3 0 0 0]"
    by (simp add: calc_accels_single vec3_zero_simps)
  have it: "iteration relaxation_factor [?e] =
      Inr \<lparr>electrons = [?e], old_positions = [?p], new_positions = [?p], convergence_list = [0]\<rparr>"
    using iteration_rest [of "[?e]" "[0]" relaxation_factor] m
    by (simp add: calc_accels_single vec3_zero_simps)
  have r: "relax tolerance relaxation_factor [?e] 0 = Some (Inr ([?p], 1))"
    using assms(1) by (subst relax.simps) (simp add: it)
  have "solve_thomson 1 tolerance relaxation_factor rnd = Some (Inr [?p])"
    by (simp add: solve_thomson_def i r)
  with m i a it r show ?thesis by blast
qed

theorem solve_thomson_single_electron_witness:
  "\<exists>p. p = direction (sample rnd_single 0) \<and> mag p = 1
           \<and> init_electrons 1 rnd_single = Inr [\<lparr>pos = p, vel = vec3 0 0 0\<rparr>]
           \<and> calc_accels [\<lparr>pos = p, vel = vec3 0 0 0\<rparr>] = Inr [vec3 0 0 0]
           \<and> iteration 1 [\<lparr>pos = p, vel = vec3 0 0 0\<rparr>] =
               Inr \<lparr>electrons = [\<lparr>pos = p, vel = vec3 0 0 0\<rparr>], old_positions = [p],
                    new_positions = [p], convergence_list = [0]\<rparr>
           \<and> relax (1 / 100) 1 [\<lparr>pos = p, vel = vec3 0 0 0\<rparr>] 0 = Some (Inr ([p], 1))
           \<and> solve_thomson 1 (1 / 100) 1 rnd_single = Some (Inr [p])"
proof -
  have "(0::real) < 1 / 100" by simp
  moreover have "sample rnd_single 0 \<noteq> 0"
    by (simp add: sample_def rnd_single_def zero_vec3_def)
  ultimately show ?thesis
    by (rule solve_thomson_single_electron)
qed

text \<open>
  C6, as stated, fails: with \<open>relaxation_factor = 0\<close>, \<open>n = 1\<close> and tolerance
  \<open>1 / 100\<close> the solver returns, after one iteration, the initial position.
  Nothing moves, so every displacement is \<open>0\<close>, which is below any positive
  tolerance: the convergence test succeeds at once.
\<close>

theorem relaxation_factor_zero_counterexample:
  "init_electrons 1 rnd_single = Inr [e_single]
   \<and> iteration 0 [e_single] =
       Inr \<lparr>electrons = [e_single], old_positions = [vec3 1 0 0], new_positions = [vec3 1 0 0],
            convergence_list = [0]\<rparr>
   \<and> relax (1 / 100) 0 [e_single] 0 = Some (Inr ([vec3 1 0 0], 1))
   \<and> solve_thomson 1 (1 / 100) 0 rnd_single = Some (Inr [vec3 1 0 0])"
  by (simp add: init_single iteration_single relax_single solve_single)

text \<open>
  C6, amended. With \<open>relaxation_factor = 0\<close> and a positive tolerance, when
  initialisation succeeds with pairwise distinct positions, the system is
  frozen: the first iteration leaves every electron as it is, every
  displacement is \<open>0\<close>, and the solver returns the initial positions after
  exactly one iteration.
\<close>

theorem relaxation_factor_zero_frozen:
  assumes "init_electrons n rnd = Inr es" and "distinct (map pos es)" and "0 < tolerance"
  shows "iteration 0 es =
           Inr \<lparr>electrons = es, old_positions = map pos es, new_positions = map pos es,
                convergence_list = map (\<lambda>i. 0) [0..<length es]\<rparr>
         \<and> relax tolerance 0 es 0 = Some (Inr (map pos es, 1))
         \<and> solve_thomson n tolerance 0 rnd = Some (Inr (map pos es))"
proof -
  from calc_accels_distinct [OF assms(2)] obtain accs where a: "calc_accels es = Inr accs"
    by blast
  have "mag (pos (es ! i)) = 1 \<and> vel (es ! i) = 0 \<and> (accs ! i = 0 \<or> (0::real) = 0)"
    if "i < length es" for i
    using init_electrons_InrD(4) [OF assms(1), of "es ! i"] that by simp
  then have it: "iteration 0 es =
           Inr \<lparr>electrons = es, old_positions = map pos es, new_positions = map pos es,
                convergence_list = map (\<lambda>i. 0) [0..<length es]\<rparr>"
    by (rule iteration_rest [OF a])
  then have r: "relax tolerance 0 es 0 = Some (Inr (map pos es, 0 + 1))"
    using assms(3) by (rule relax_rest)
  then have "solve_thomson n tolerance 0 rnd = Some (Inr (map pos es))"
    by (simp add: solve_thomson_def assms(1))
  with it r show ?thesis by simp
qed

theorem relaxation_factor_zero_frozen_witness:
  "iteration 0 es_pair =
           Inr \<lparr>electrons = es_pair, old_positions = map pos es_pair, new_positions = map pos es_pair,
                convergence_list = map (\<lambda>i. 0) [0..<length es_pair]\<rparr>
         \<and> relax (1 / 100) 0 es_pair 0 = Some (Inr (map pos es_pair, 1))
         \<and> solve_thomson 2 (1 / 100) 0 rnd_pair = Some (Inr (map pos es_pair))"
proof -
  have "distinct (map pos es_pair)"
    by (simp add: es_pair_def)
  moreover have "(0::real) < 1 / 100" by simp
  ultimately show ?thesis
    by (rule relaxation_factor_zero_frozen [OF init_pair])
qed

text \<open>
  C3 (invariant I1). Once initialisation has succeeded, every electron's
  position has magnitude \<open>1\<close> after initialisation (\<open>k = 0\<close>) and after every
  completed iteration (\<open>k > 0\<close>), and every position the solver returns has
  magnitude \<open>1\<close>. Magnitudes are exact here because the arithmetic is over
  the reals.
\<close>

theorem surface_invariant:
  "(init_electrons n rnd = Inr es \<and> after_iterations relaxation_factor k es = Inr es_k
      \<longrightarrow> (\<forall>e\<in>set es_k. mag (pos e) = 1))
   \<and> (solve_thomson n tolerance relaxation_factor rnd = Some (Inr ps)
      \<longrightarrow> (\<forall>p\<in>set ps. mag p = 1))"
proof (intro conjI impI)
  assume a: "init_electrons n rnd = Inr es \<and> after_iterations relaxation_factor k es = Inr es_k"
  show "\<forall>e\<in>set es_k. mag (pos e) = 1"
  proof (cases k)
    case 0
    with a show ?thesis
      using init_electrons_InrD(4) by auto
  next
    case (Suc j)
    with a have "after_iterations relaxation_factor (Suc j) es = Inr es_k"
      by simp
    then have "(case after_iterations relaxation_factor j es of
                  Inl err \<Rightarrow> Inl err
                | Inr es' \<Rightarrow> (case iteration relaxation_factor es' of
                              Inl err \<Rightarrow> Inl err | Inr r \<Rightarrow> Inr (electrons r))) = Inr es_k"
      by (simp only: after_iterations_Suc_end)
    then obtain es_j r where "iteration relaxation_factor es_j = Inr r" "es_k = electrons r"
      by (auto split: sum.splits)
    then show ?thesis
      using iteration_unit by blast
  qed
next
  assume "solve_thomson n tolerance relaxation_factor rnd = Some (Inr ps)"
  from solve_thomson_SomeD [OF this] obtain es c where
    "relax tolerance relaxation_factor es 0 = Some (Inr (ps, c))"
    by blast
  from relax_SomeD [OF this] obtain es_k r where
    "iteration relaxation_factor es_k = Inr r" "ps = map pos (electrons r)"
    by blast
  then show "\<forall>p\<in>set ps. mag p = 1"
    using iteration_unit by auto
qed


theorem surface_invariant_witness:
  "init_electrons 2 rnd_pair = Inr es_pair
   \<and> after_iterations 32 1 es_pair = Inr es_pair_moved
   \<and> list_all (\<lambda>e. mag (pos e) = 1) es_pair_moved
   \<and> solve_thomson 2 1 32 rnd_pair = Some (Inr [vec3 (4 / 5) (- 3 / 5) 0, vec3 (- 4 / 5) (3 / 5) 0])
   \<and> list_all (\<lambda>p. mag p = 1) [vec3 (4 / 5) (- 3 / 5) 0, vec3 (- 4 / 5) (3 / 5) 0]"
  using surface_invariant [of 2 rnd_pair es_pair 32 1 es_pair_moved 1
      "[vec3 (4 / 5) (- 3 / 5) 0, vec3 (- 4 / 5) (3 / 5) 0]"]
  by (simp only: init_pair after_iterations_pair solve_pair list_all_iff simp_thms)

text \<open>
  C7. The division by the squared distance in \<open>calc_accel\<close> has no guard.
  For two electrons at different positions the denominator is not zero and
  the call yields the contribution; for two electrons at the same position
  it raises \<open>ZeroDivisionError\<close>. Hence the accelerations of a whole
  iteration are all defined when the positions are pairwise distinct, and
  the computation raises as soon as two different electrons coincide.
\<close>

theorem pairwise_force_defined:
  "(pos e \<noteq> pos e2 \<longrightarrow>
      (mag (pos e - pos e2))\<^sup>2 \<noteq> 0
      \<and> calc_accel e e2 = Inr (scale (direction (pos e - pos e2)) (1 / (mag (pos e - pos e2))\<^sup>2)))
   \<and> (pos e = pos e2 \<longrightarrow> (mag (pos e - pos e2))\<^sup>2 = 0 \<and> calc_accel e e2 = Inl ZeroDivisionError)
   \<and> (distinct (map pos es) \<longrightarrow> (\<exists>accs. calc_accels es = Inr accs))
   \<and> (i < length es \<and> j < length es \<and> i \<noteq> j \<and> pos (es ! i) = pos (es ! j) \<longrightarrow>
        calc_accels es = Inl ZeroDivisionError)"
proof (intro conjI impI)
  assume "pos e \<noteq> pos e2"
  then show "(mag (pos e - pos e2))\<^sup>2 \<noteq> 0"
    by (simp add: mag_diff_eq_0_iff)
next
  assume "pos e \<noteq> pos e2"
  then show "calc_accel e e2 = Inr (scale (direction (pos e - pos e2)) (1 / (mag (pos e - pos e2))\<^sup>2))"
    by (simp add: calc_accel_eq pair_accel_def)
next
  assume "pos e = pos e2"
  then show "(mag (pos e - pos e2))\<^sup>2 = 0"
    by (simp add: mag_zero)
next
  assume "pos e = pos e2"
  then show "calc_accel e e2 = Inl ZeroDivisionError"
    by (simp add: calc_accel_eq)
next
  assume "distinct (map pos es)"
  then show "\<exists>accs. calc_accels es = Inr accs"
    by (rule calc_accels_distinct)
next
  assume "i < length es \<and> j < length es \<and> i \<noteq> j \<and> pos (es ! i) = pos (es ! j)"
  then show "calc_accels es = Inl ZeroDivisionError"
    using calc_accels_coincide by blast
qed

theorem pairwise_force_defined_witness:
  "calc_accel e_single \<lparr>pos = vec3 (- 7 / 25) (24 / 25) 0, vel = vec3 0 0 0\<rparr>
     = Inr (vec3 (5 / 16) (- 15 / 64) 0)
   \<and> (mag (pos e_single - vec3 (- 7 / 25) (24 / 25) 0))\<^sup>2 = 64 / 25
   \<and> calc_accel e_single e_single = Inl ZeroDivisionError
   \<and> (\<exists>accs. calc_accels es_pair = Inr accs)
   \<and> calc_accels [e_single, e_single] = Inl ZeroDivisionError"
proof -
  let ?b = "\<lparr>pos = vec3 (- 7 / 25) (24 / 25) 0, vel = vec3 0 0 0\<rparr>"
  note t = pairwise_force_defined
  have d: "pos e_single \<noteq> pos ?b" "distinct (map pos es_pair)"
    by (simp_all add: es_pair_def e_single_def)
  have m: "mag (pos e_single - pos ?b) = 8 / 5"
    by (simp add: e_single_def mag_def minus_vec3_def sqrt_rat [of "8 / 5"])
  have dir: "direction (pos e_single - pos ?b) = vec3 (4 / 5) (- 3 / 5) 0"
    unfolding direction_def m by (simp add: e_single_def minus_vec3_def)
  from t [of e_single ?b es_pair 0 0] d
  have 1: "calc_accel e_single ?b = Inr (vec3 (5 / 16) (- 15 / 64) 0)"
    and 2: "\<exists>accs. calc_accels es_pair = Inr accs"
    unfolding m dir by (simp_all add: scale_def power2_eq_square)
  from t [of e_single e_single "[e_single, e_single]" 0 1]
  have 3: "calc_accel e_single e_single = Inl ZeroDivisionError"
    and 4: "calc_accels [e_single, e_single] = Inl ZeroDivisionError"
    by simp_all
  have "mag (pos e_single - vec3 (- 7 / 25) (24 / 25) 0) = 8 / 5"
    using m by simp
  then have "(mag (pos e_single - vec3 (- 7 / 25) (24 / 25) 0))\<^sup>2 = 64 / 25"
    by (simp only:) (simp add: power2_eq_square)
  with 1 2 3 4 show ?thesis by simp
qed

text \<open>
  C5. An iteration as the source performs it, with its three loops that
  mutate the electrons in place, computes exactly what the two-phase form
  computes: all accelerations from a snapshot of the positions at the start
  of the iteration, then all velocity and position updates. The results
  agree in the electrons, the old and new positions, the displacements, and
  in whether an error is raised.
\<close>

theorem iteration_read_then_write:
  "iteration relaxation_factor es = two_phase_iteration relaxation_factor es"
  by (rule iteration_two_phase)

theorem iteration_read_then_write_witness:
  "two_phase_iteration 32 es_pair =
     Inr \<lparr>electrons = es_pair_moved,
          old_positions = [vec3 1 0 0, vec3 (- 7 / 25) (24 / 25) 0],
          new_positions = [vec3 (4 / 5) (- 3 / 5) 0, vec3 (- 4 / 5) (3 / 5) 0],
          convergence_list = [sqrt (2 / 5), sqrt (2 / 5)]\<rparr>"
  using iteration_read_then_write [of 32 es_pair] by (simp add: iteration_pair)

text \<open>
  C2. When the acceleration phase of an iteration succeeds, the acceleration
  accumulated for the electron with index \<open>i\<close> is the sum, over the indices
  \<open>j\<close> of all other electrons, of the normalised difference of the positions
  scaled by the reciprocal of the squared distance; each summand is what
  \<open>calc_accel\<close> returns for that pair, and the electron itself is left out.
\<close>

theorem total_acceleration_is_pairwise_sum:
  assumes "calc_accels es = Inr accs" and "i < length es"
  shows "length accs = length es
    \<and> accs ! i = (\<Sum>j\<in>{..<length es} - {i}.
          scale (direction (pos (es ! i) - pos (es ! j)))
                (1 / (mag (pos (es ! i) - pos (es ! j)))\<^sup>2))
    \<and> (\<forall>j<length es. j \<noteq> i \<longrightarrow>
          calc_accel (es ! i) (es ! j) =
            Inr (scale (direction (pos (es ! i) - pos (es ! j)))
                   (1 / (mag (pos (es ! i) - pos (es ! j)))\<^sup>2)))"
proof -
  let ?n = "length es"
  let ?f = "\<lambda>j. scale (direction (pos (es ! i) - pos (es ! j)))
                (1 / (mag (pos (es ! i) - pos (es ! j)))\<^sup>2)"
  have len: "length accs = ?n"
    using assms(1) by (rule calc_accels_length)
  from assms(1) have c: "collect (map (snapshot_accel (map pos es)) [0..<?n]) = Inr accs"
    by (simp add: calc_accels_snapshot)
  then have no: "\<not> (\<exists>k\<in>set [0..<?n]. isl (snapshot_accel (map pos es) k))"
    and accs: "accs = map (\<lambda>k. projr (snapshot_accel (map pos es) k)) [0..<?n]"
    by (auto simp: collect_map split: if_splits)
  from no assms(2) have ni: "\<not> isl (snapshot_accel (map pos es) i)"
    by simp
  then have nc: "\<not> list_ex (\<lambda>j. j \<noteq> i \<and> map pos es ! j = map pos es ! i) [0..<length (map pos es)]"
    by (auto simp: snapshot_accel_def split: if_splits)
  then have dist: "pos (es ! j) \<noteq> pos (es ! i)" if "j < ?n" "j \<noteq> i" for j
    using that assms(2) by (auto simp: list_ex_iff)
  have "accs ! i = projr (snapshot_accel (map pos es) i)"
    using assms(2) by (simp add: accs)
  also have "\<dots> = sum_list (map (\<lambda>j. pair_accel (map pos es ! i) (map pos es ! j))
                        (filter (\<lambda>j. j \<noteq> i) [0..<?n]))"
    using nc by (simp add: snapshot_accel_def)
  also have "\<dots> = sum_list (map ?f (filter (\<lambda>j. j \<noteq> i) [0..<?n]))"
    using assms(2) by (intro arg_cong [where f = sum_list] map_cong) (simp_all add: pair_accel_def)
  also have "\<dots> = sum ?f (set (filter (\<lambda>j. j \<noteq> i) [0..<?n]))"
    by (rule sum_list_distinct_conv_sum_set) simp
  also have "set (filter (\<lambda>j. j \<noteq> i) [0..<?n]) = {..<?n} - {i}"
    by auto
  finally have s: "accs ! i = sum ?f ({..<?n} - {i})" .
  have "calc_accel (es ! i) (es ! j) = Inr (?f j)" if "j < ?n" "j \<noteq> i" for j
    using dist [OF that] by (auto simp: calc_accel_eq pair_accel_def)
  with len s show ?thesis by blast
qed

theorem total_acceleration_is_pairwise_sum_witness:
  "calc_accels es_pair = Inr [vec3 (5 / 16) (- 15 / 64) 0, vec3 (- 5 / 16) (15 / 64) 0]
   \<and> [vec3 (5 / 16) (- 15 / 64) 0, vec3 (- 5 / 16) (15 / 64) 0] ! 0
       = (\<Sum>j\<in>{..<length es_pair} - {0}.
            scale (direction (pos (es_pair ! 0) - pos (es_pair ! j)))
                  (1 / (mag (pos (es_pair ! 0) - pos (es_pair ! j)))\<^sup>2))"
proof -
  have "(0::nat) < length es_pair"
    by (simp add: es_pair_def)
  from total_acceleration_is_pairwise_sum [OF calc_accels_pair this] show ?thesis
    by (simp only: calc_accels_pair simp_thms)
qed

text \<open>
  C1. If the solver returns, then for some \<open>k\<close> it has left the loop in
  iteration \<open>k + 1\<close>: in that iteration every electron's displacement between
  its position before and after the update is strictly below the tolerance,
  in each of the \<open>k\<close> earlier iterations some electron's displacement is at
  least the tolerance, and the value returned is the list of the positions
  after the update of that last iteration.
\<close>

theorem returns_at_first_converged_iteration:
  assumes "solve_thomson n tolerance relaxation_factor rnd = Some (Inr ps)"
  shows "\<exists>es k. init_electrons n rnd = Inr es
          \<and> relax tolerance relaxation_factor es 0 = Some (Inr (ps, k + 1))
          \<and> (\<forall>j<k. \<exists>es_j r. after_iterations relaxation_factor j es = Inr es_j
                 \<and> iteration relaxation_factor es_j = Inr r
                 \<and> convergence_list r = displacements es_j (electrons r)
                 \<and> (\<exists>d\<in>set (convergence_list r). tolerance \<le> d))
          \<and> (\<exists>es_k r. after_iterations relaxation_factor k es = Inr es_k
                 \<and> iteration relaxation_factor es_k = Inr r
                 \<and> convergence_list r = displacements es_k (electrons r)
                 \<and> (\<forall>d\<in>set (convergence_list r). d < tolerance)
                 \<and> ps = new_positions r \<and> ps = map pos (electrons r))"
proof -
  from solve_thomson_SomeD [OF assms] obtain es c where
    i: "init_electrons n rnd = Inr es"
    and r: "relax tolerance relaxation_factor es 0 = Some (Inr (ps, c))"
    by blast
  from relax_SomeD [OF r] obtain k where
    c: "c = 0 + k + 1"
    and early: "\<forall>j<k. \<exists>es_j r. after_iterations relaxation_factor j es = Inr es_j
                 \<and> iteration relaxation_factor es_j = Inr r
                 \<and> (\<exists>d\<in>set (displacements es_j (electrons r)). tolerance \<le> d)"
    and final: "\<exists>es_k r. after_iterations relaxation_factor k es = Inr es_k
                 \<and> iteration relaxation_factor es_k = Inr r
                 \<and> (\<forall>d\<in>set (displacements es_k (electrons r)). d < tolerance)
                 \<and> ps = map pos (electrons r)"
    by blast
  have e: "\<forall>j<k. \<exists>es_j r. after_iterations relaxation_factor j es = Inr es_j
                 \<and> iteration relaxation_factor es_j = Inr r
                 \<and> convergence_list r = displacements es_j (electrons r)
                 \<and> (\<exists>d\<in>set (convergence_list r). tolerance \<le> d)"
    using early iteration_displacements by metis
  have f: "\<exists>es_k r. after_iterations relaxation_factor k es = Inr es_k
                 \<and> iteration relaxation_factor es_k = Inr r
                 \<and> convergence_list r = displacements es_k (electrons r)
                 \<and> (\<forall>d\<in>set (convergence_list r). d < tolerance)
                 \<and> ps = new_positions r \<and> ps = map pos (electrons r)"
    using final iteration_displacements iteration_new_positions by metis
  from i r c e f show ?thesis by auto
qed

theorem returns_at_first_converged_iteration_witness:
  "solve_thomson 2 (5 / 8) 32 rnd_pair = Some (Inr (map pos es_pair_settled))
   \<and> relax (5 / 8) 32 es_pair 0 = Some (Inr (map pos es_pair_settled, 2))
   \<and> (\<exists>es k. init_electrons 2 rnd_pair = Inr es
          \<and> relax (5 / 8) 32 es 0 = Some (Inr (map pos es_pair_settled, k + 1))
          \<and> (\<forall>j<k. \<exists>es_j r. after_iterations 32 j es = Inr es_j
                 \<and> iteration 32 es_j = Inr r
                 \<and> convergence_list r = displacements es_j (electrons r)
                 \<and> (\<exists>d\<in>set (convergence_list r). 5 / 8 \<le> d))
          \<and> (\<exists>es_k r. after_iterations 32 k es = Inr es_k
                 \<and> iteration 32 es_k = Inr r
                 \<and> convergence_list r = displacements es_k (electrons r)
                 \<and> (\<forall>d\<in>set (convergence_list r). d < 5 / 8)
                 \<and> map pos es_pair_settled = new_positions r
                 \<and> map pos es_pair_settled = map pos (electrons r)))"
  using returns_at_first_converged_iteration [OF solve_pair_two] solve_pair_two relax_pair_two
  by (intro conjI)




text \<open>
  C4, as stated, fails. After the first iteration of the two-electron run with
  relaxation factor 32 the first electron has velocity \<open>(0, -3/4, 0)\<close> and
  position \<open>(4/5, -3/5, 0)\<close>, a unit vector: the dot product of the velocity
  with the normalised position at the end of the iteration is \<open>9/20\<close>, not
  \<open>0\<close>.
\<close>

theorem tangency_at_end_position_counterexample:
  "init_electrons 2 rnd_pair = Inr es_pair
   \<and> map_sum id electrons (iteration 32 es_pair) = Inr es_pair_moved
   \<and> normalized (pos (es_pair_moved ! 0)) = Inr (vec3 (4 / 5) (- 3 / 5) 0)
   \<and> dot (vel (es_pair_moved ! 0)) (vec3 (4 / 5) (- 3 / 5) 0) = 9 / 20"
  by (simp add: init_pair iteration_pair)
    (simp add: es_pair_moved_def normalized_def direction_def mag_def dot_def sqrt_rat [of 1])

text \<open>
  C4 (invariant I2), amended. After every completed iteration, every
  electron's velocity has a zero dot product with the normalised position the
  electron had at the start of that iteration, before the position update:
  that is the position the projection of lines 79 and 80 uses.
\<close>

theorem tangency_at_start_position:
  assumes "iteration relaxation_factor es = Inr r" and "i < length es"
  shows "length (electrons r) = length es
    \<and> old_positions r ! i = pos (es ! i)
    \<and> normalized (pos (es ! i)) = Inr (direction (pos (es ! i)))
    \<and> dot (vel (electrons r ! i)) (direction (pos (es ! i))) = 0"
proof -
  from iteration_InrD [OF assms(1)] obtain accs where
    len: "length (electrons r) = length es"
    and u: "\<forall>i<length es. apply_update relaxation_factor (accs ! i) (es ! i) = Inr (electrons r ! i)"
    and old: "old_positions r = map pos es"
    by blast
  from u assms(2) have a: "apply_update relaxation_factor (accs ! i) (es ! i) = Inr (electrons r ! i)"
    by simp
  have "pos (es ! i) \<noteq> 0"
    using a by (rule apply_update_InrD)
  then have "normalized (pos (es ! i)) = Inr (direction (pos (es ! i)))"
    by (simp add: normalized_Inr_iff)
  moreover have "dot (vel (electrons r ! i)) (direction (pos (es ! i))) = 0"
    using a by (rule apply_update_InrD)
  moreover have "old_positions r ! i = pos (es ! i)"
    using assms(2) by (simp add: old)
  ultimately show ?thesis
    using len by simp
qed

theorem tangency_at_start_position_witness:
  "iteration 32 es_pair =
     Inr \<lparr>electrons = es_pair_moved,
          old_positions = [vec3 1 0 0, vec3 (- 7 / 25) (24 / 25) 0],
          new_positions = [vec3 (4 / 5) (- 3 / 5) 0, vec3 (- 4 / 5) (3 / 5) 0],
          convergence_list = [sqrt (2 / 5), sqrt (2 / 5)]\<rparr>
   \<and> normalized (pos (es_pair ! 1)) = Inr (direction (pos (es_pair ! 1)))
   \<and> dot (vel (es_pair_moved ! 1)) (direction (pos (es_pair ! 1))) = 0"
proof -
  have "(1::nat) < length es_pair"
    by (simp add: es_pair_def)
  from tangency_at_start_position [OF iteration_pair this] show ?thesis
    by (simp add: iteration_pair)
qed

end
